theory Spec2Isabelle
  imports Main "HOL-Library.Sublist"
begin

section \<open>Strings\<close>

text \<open>
  A Python \<open>str\<close> is modelled as a \<open>string\<close> (the list of its characters).
  \<open>str.lower\<close> is a library function of Python, not code of the repository: the
  functions below take it as the parameter \<open>lower\<close>, and the theorems about the
  matcher hold for every such function. \<open>ascii_lower\<close> is the instance used to
  evaluate the definitions on concrete inputs; it folds the letters \<open>A\<close> to \<open>Z\<close>
  and leaves every other character alone.
\<close>

definition char_lower :: "char \<Rightarrow> char" where
  "char_lower c =
     (let n = (of_char c :: nat) in if 65 \<le> n \<and> n \<le> 90 then char_of (n + 32) else c)"

definition ascii_lower :: "string \<Rightarrow> string" where
  "ascii_lower s = map char_lower s"

text \<open>
  \<open>needle in haystack\<close> on two \<open>str\<close> values: substring containment.
  \<open>starts_with needle haystack\<close> compares at the front, \<open>str_contains\<close> tries every
  position of the haystack from left to right.
\<close>

fun starts_with :: "string \<Rightarrow> string \<Rightarrow> bool" where
  "starts_with [] h = True"
| "starts_with (x # xs) [] = False"
| "starts_with (x # xs) (y # ys) = (x = y \<and> starts_with xs ys)"

fun str_contains :: "string \<Rightarrow> string \<Rightarrow> bool" where
  "str_contains [] needle = (needle = [])"
| "str_contains (c # cs) needle = (starts_with needle (c # cs) \<or> str_contains cs needle)"

section \<open>Keyword Matcher\<close>

text \<open>
  Lines 139 to 143 of \<open>main.py\<close>:
  \<^verbatim>\<open>
  message_text_lower = message.text.lower()
  matching_keywords = []
  for keyword in KEYWORDS:
      if keyword.lower() in message_text_lower:
          matching_keywords.append(keyword)
  \<close>
  The loop is \<open>keywords_loop\<close>, with the list built so far as accumulator.
\<close>

fun keywords_loop :: "(string \<Rightarrow> string) \<Rightarrow> string \<Rightarrow> string list \<Rightarrow> string list \<Rightarrow> string list" where
  "keywords_loop lower message_text_lower [] matching_keywords = matching_keywords"
| "keywords_loop lower message_text_lower (keyword # rest) matching_keywords =
     keywords_loop lower message_text_lower rest
       (if str_contains message_text_lower (lower keyword)
        then matching_keywords @ [keyword] else matching_keywords)"

definition matching_keywords_of :: "(string \<Rightarrow> string) \<Rightarrow> string list \<Rightarrow> string \<Rightarrow> string list" where
  "matching_keywords_of lower KEYWORDS text = keywords_loop lower (lower text) KEYWORDS []"

text \<open>
  The matcher as the specification words it: the keywords whose lowercase form is a
  substring of the lowercase text.
\<close>

definition matchedKeywords_spec :: "(string \<Rightarrow> string) \<Rightarrow> string \<Rightarrow> string list \<Rightarrow> string set" where
  "matchedKeywords_spec lower T K = {k \<in> set K. sublist (lower k) (lower T)}"

section \<open>Python values, exceptions and sets\<close>

text \<open>
  The values \<open>json.load\<close> can return and \<open>json.dump\<close> is given here: \<open>None\<close>,
  \<open>bool\<close>, \<open>int\<close>, \<open>str\<close>, \<open>list\<close> and \<open>dict\<close> (a dict as the list of its items).
  JSON numbers with a fraction or an exponent (Python floats) are left out of the model.
\<close>

datatype pyval =
    PNone
  | PBool bool
  | PInt int
  | PStr string
  | PList "pyval list"
  | PDict "(string \<times> pyval) list"

datatype py_error = JSONDecodeError | FileNotFoundError | TypeError

text \<open>
  Python compares \<open>bool\<close> and \<open>int\<close> values as numbers (\<open>True == 1\<close>, with equal
  hashes), and a set holds one of two equal values. \<open>py_eq\<close> is \<open>==\<close> on the hashable
  values of \<open>pyval\<close>; lists and dicts are not hashable and never reach a set.
\<close>

fun py_int_value :: "pyval \<Rightarrow> int option" where
  "py_int_value (PBool b) = Some (if b then 1 else 0)"
| "py_int_value (PInt i) = Some i"
| "py_int_value v = None"

definition py_eq :: "pyval \<Rightarrow> pyval \<Rightarrow> bool" where
  "py_eq a b =
     (case py_int_value a of
        Some i \<Rightarrow> py_int_value b = Some i
      | None \<Rightarrow> py_int_value b = None \<and> a = b)"

fun hashable :: "pyval \<Rightarrow> bool" where
  "hashable (PList xs) = False"
| "hashable (PDict kvs) = False"
| "hashable v = True"

text \<open>
  A Python \<open>set\<close> is the list of its elements, no two of them equal under \<open>py_eq\<close>.
  The order in which Python iterates over a set is a matter of its hash table; the
  model keeps the order of insertion, and the theorems below speak about membership.
  \<open>set_contains s v\<close> is \<open>v in s\<close>, \<open>set_add s v\<close> is \<open>s.add(v)\<close>, and \<open>py_set v\<close> is the
  constructor \<open>set(v)\<close>: the elements of a list, the characters of a str, the keys of a
  dict, and \<open>TypeError\<close> for a value that is not iterable or an element that is not
  hashable.
\<close>

type_synonym pyset = "pyval list"

definition set_contains :: "pyset \<Rightarrow> pyval \<Rightarrow> bool" where
  "set_contains s v = list_ex (\<lambda>u. py_eq u v) s"

definition set_add :: "pyset \<Rightarrow> pyval \<Rightarrow> pyset" where
  "set_add s v = (if set_contains s v then s else s @ [v])"

definition set_of_list :: "pyval list \<Rightarrow> py_error + pyset" where
  "set_of_list xs =
     (if list_all hashable xs then Inr (fold (\<lambda>x s. set_add s x) xs []) else Inl TypeError)"

fun py_set :: "pyval \<Rightarrow> py_error + pyset" where
  "py_set (PList xs) = set_of_list xs"
| "py_set (PStr cs) = set_of_list (map (\<lambda>c. PStr [c]) cs)"
| "py_set (PDict kvs) = set_of_list (map (\<lambda>kv. PStr (fst kv)) kvs)"
| "py_set v = Inl TypeError"

section \<open>Duplicate Store\<close>

text \<open>
  The file \<open>forwarded_messages.json\<close>: absent (\<open>None\<close>), or present with a content that
  \<open>json.load\<close> either rejects with \<open>JSONDecodeError\<close> (\<open>Not_json\<close>) or decodes to a
  value (\<open>Json v\<close>). \<open>json.dump\<close> leaves a content that decodes to the value it was given.
  Writing the file is taken to succeed; a file that exists and cannot be opened or
  decoded as text is not among the states.
\<close>

datatype file_content = Not_json | Json pyval

type_synonym file_state = "file_content option"

definition os_path_exists :: "file_state \<Rightarrow> bool" where
  "os_path_exists fs = (fs \<noteq> None)"

definition open_read :: "file_state \<Rightarrow> py_error + file_content" where
  "open_read fs = (case fs of None \<Rightarrow> Inl FileNotFoundError | Some c \<Rightarrow> Inr c)"

fun json_load :: "file_content \<Rightarrow> py_error + pyval" where
  "json_load Not_json = Inl JSONDecodeError"
| "json_load (Json v) = Inr v"

text \<open>
  \<^verbatim>\<open>
  def load_forwarded_messages():
      if os.path.exists(FORWARDED_MESSAGES_FILE):
          try:
              with open(FORWARDED_MESSAGES_FILE, "r") as f:
                  return set(json.load(f))
          except (json.JSONDecodeError, FileNotFoundError):
              return set()
      return set()
  \<close>
  \<open>load_try\<close> is the body of the \<open>try\<close>; the handler of \<open>load_forwarded_messages\<close>
  catches the two exceptions it names and lets every other one pass to the caller.
\<close>

definition load_try :: "file_state \<Rightarrow> py_error + pyset" where
  "load_try fs =
     (case open_read fs of
        Inl e \<Rightarrow> Inl e
      | Inr f \<Rightarrow> (case json_load f of Inl e \<Rightarrow> Inl e | Inr v \<Rightarrow> py_set v))"

definition load_forwarded_messages :: "file_state \<Rightarrow> py_error + pyset" where
  "load_forwarded_messages fs =
     (if os_path_exists fs then
        (case load_try fs of
           Inl e \<Rightarrow> (if e = JSONDecodeError \<or> e = FileNotFoundError then Inr [] else Inl e)
         | Inr s \<Rightarrow> Inr s)
      else Inr [])"

text \<open>
  \<^verbatim>\<open>
  def save_forwarded_messages(forwarded_ids):
      with open(FORWARDED_MESSAGES_FILE, "w") as f:
          json.dump(list(forwarded_ids), f)

  def add_forwarded_message(forwarded_ids, message_id):
      forwarded_ids.add(message_id)
      save_forwarded_messages(forwarded_ids)
  \<close>
  Both return the new state of the file; \<open>add_forwarded_message\<close> returns the updated
  set as well, since it changes the caller's set in place.
\<close>

definition save_forwarded_messages :: "pyset \<Rightarrow> file_state \<Rightarrow> file_state" where
  "save_forwarded_messages forwarded_ids fs = Some (Json (PList forwarded_ids))"

definition add_forwarded_message :: "pyset \<Rightarrow> int \<Rightarrow> file_state \<Rightarrow> pyset \<times> file_state" where
  "add_forwarded_message forwarded_ids message_id fs =
     (let forwarded_ids' = set_add forwarded_ids (PInt message_id)
      in (forwarded_ids', save_forwarded_messages forwarded_ids' fs))"

text \<open>The integers a set holds: \<open>{i. i in s}\<close>.\<close>

definition int_members :: "pyset \<Rightarrow> int set" where
  "int_members s = {i. set_contains s (PInt i)}"

text \<open>
  The lists that stand for a Python set: hashable elements, no two of them equal.
\<close>

fun is_pyset :: "pyset \<Rightarrow> bool" where
  "is_pyset [] = True"
| "is_pyset (v # s) = (hashable v \<and> \<not> set_contains s v \<and> is_pyset s)"

section \<open>Times and the relative age\<close>

text \<open>
  An aware \<open>datetime\<close> in UTC is the number of microseconds since the epoch. The
  difference of two of them is a \<open>timedelta\<close>, which Python keeps normalised:
  \<open>0 \<le> seconds < 86400\<close> and \<open>0 \<le> microseconds < 1000000\<close>, with \<open>days\<close> taking the
  sign. \<open>timedelta_hours h\<close> is \<open>timedelta(hours=h)\<close> in microseconds.
\<close>

record timedelta =
  days :: int
  seconds :: int
  microseconds :: int

definition datetime_sub :: "int \<Rightarrow> int \<Rightarrow> timedelta" where
  "datetime_sub a b =
     (let us = a - b
      in \<lparr>days = us div 86400000000,
          seconds = (us mod 86400000000) div 1000000,
          microseconds = us mod 1000000\<rparr>)"

definition timedelta_hours :: "int \<Rightarrow> int" where
  "timedelta_hours h = h * 3600000000"

text \<open>The decimal text of an integer, as an f-string writes it.\<close>

definition digit_char :: "nat \<Rightarrow> char" where
  "digit_char d = char_of (48 + d)"

function str_nat :: "nat \<Rightarrow> string" where
  "str_nat n = (if n < 10 then [digit_char n] else str_nat (n div 10) @ [digit_char (n mod 10)])"
  by pat_completeness auto
termination
  by (relation "measure (\<lambda>n. n)") auto

definition str_int :: "int \<Rightarrow> string" where
  "str_int i = (if i < 0 then CHR ''-'' # str_nat (nat (- i)) else str_nat (nat i))"

text \<open>
  Lines 163 to 174 of \<open>main.py\<close>:
  \<^verbatim>\<open>
  if time_diff.days > 0:
      time_ago = f"{time_diff.days} day{'s' if time_diff.days > 1 else ''} ago"
  elif time_diff.seconds >= 3600:
      hours = time_diff.seconds // 3600
      time_ago = f"{hours} hour{'s' if hours > 1 else ''} ago"
  elif time_diff.seconds >= 60:
      minutes = time_diff.seconds // 60
      time_ago = f"{minutes} minute{'s' if minutes > 1 else ''} ago"
  else:
      time_ago = "just now"
  \<close>
\<close>

definition time_ago :: "timedelta \<Rightarrow> string" where
  "time_ago time_diff =
     (if days time_diff > 0 then
        str_int (days time_diff) @ '' day'' @ (if days time_diff > 1 then ''s'' else '''') @ '' ago''
      else if seconds time_diff \<ge> 3600 then
        (let hours = seconds time_diff div 3600
         in str_int hours @ '' hour'' @ (if hours > 1 then ''s'' else '''') @ '' ago'')
      else if seconds time_diff \<ge> 60 then
        (let minutes = seconds time_diff div 60
         in str_int minutes @ '' minute'' @ (if minutes > 1 then ''s'' else '''') @ '' ago'')
      else ''just now'')"

text \<open>
  The relative age as the specification words it, on the difference in microseconds:
  the whole number \<open>N\<close> of days, else of hours, else of minutes the difference holds, the
  unit in the singular exactly when \<open>N = 1\<close>, and \<open>just now\<close> below one minute.
\<close>

definition units_ago :: "int \<Rightarrow> string \<Rightarrow> string" where
  "units_ago N unit = str_int N @ '' '' @ unit @ (if N = 1 then '''' else ''s'') @ '' ago''"

definition relative_age_spec :: "int \<Rightarrow> string" where
  "relative_age_spec d =
     (if d \<ge> 86400000000 then units_ago (d div 86400000000) ''day''
      else if d \<ge> 3600000000 then units_ago (d div 3600000000) ''hour''
      else if d \<ge> 60000000 then units_ago (d div 60000000) ''minute''
      else ''just now'')"

section \<open>Chat Poller\<close>

text \<open>
  A message of the chat as the platform client delivers it: \<open>message.id\<close>,
  \<open>message.date\<close> and \<open>message.text\<close>, which is \<open>None\<close> for a message without text.
\<close>

record message =
  msg_id :: int
  msg_date :: int
  msg_text :: "string option"

text \<open>
  The dict \<open>message_data\<close>. Its entries \<open>date\<close> (the formatted date) and \<open>sender_name\<close>
  are written and never read, and are left out.
\<close>

record message_data =
  md_id :: int
  md_text :: string
  md_matching_keywords :: "string list option"

text \<open>What the target user receives: a header notice, or a forwarded message.\<close>

datatype action = Send_message string | Forward_messages int

text \<open>
  What a cycle depends on outside the program: \<open>str.lower\<close>; the clock at line 73 and the
  clock at line 159 while a message is handled; whether the session is authorised;
  the messages of the chat, newest first (\<open>None\<close> when resolving the chat fails); whether
  the target user resolves; and whether \<open>send_message\<close> and \<open>forward_messages\<close> succeed
  for a message or raise.
\<close>

record env =
  str_lower :: "string \<Rightarrow> string"
  now_start :: int
  now_at :: "message \<Rightarrow> int"
  is_user_authorized :: bool
  chat_history :: "message list option"
  target_user_found :: bool
  send_message_ok :: "message \<Rightarrow> bool"
  forward_messages_ok :: "message \<Rightarrow> bool"

text \<open>
  The variables of a cycle, the file and the messages sent to the target user so far.
\<close>

record poll_state =
  forwarded_message_ids :: pyset
  store_file :: file_state
  messages :: "message_data list"
  matching_messages :: "message_data list"
  skipped_messages :: nat
  sent :: "action list"

definition initial_state :: "pyset \<Rightarrow> file_state \<Rightarrow> poll_state" where
  "initial_state ids fs =
     \<lparr>forwarded_message_ids = ids, store_file = fs, messages = [],
      matching_messages = [], skipped_messages = 0, sent = []\<rparr>"

fun str_join :: "string \<Rightarrow> string list \<Rightarrow> string" where
  "str_join sep [] = []"
| "str_join sep [x] = x"
| "str_join sep (x # y # ys) = x @ sep @ str_join sep (y # ys)"

text \<open>
  The header of line 177. Its first character is U+1F525, written here as the four
  bytes of its UTF-8 form.
\<close>

definition header_text :: "string list \<Rightarrow> string \<Rightarrow> string" where
  "header_text matching_keywords ago =
     [char_of (240 :: nat), char_of (159 :: nat), char_of (148 :: nat), char_of (165 :: nat)]
       @ '' Keyword match: '' @ str_join '', '' matching_keywords @ '' ('' @ ago @ '')''"

text \<open>
  The \<open>try\<close> of lines 157 to 188 for a new match: the header is sent, the message is
  forwarded, the identifier is added to the store. An exception of either call ends
  the \<open>try\<close>; the handler prints it and the loop goes on.
\<close>

definition forward_match :: "env \<Rightarrow> string list \<Rightarrow> poll_state \<Rightarrow> message \<Rightarrow> poll_state" where
  "forward_match e matching_keywords st message =
     (let time_diff = datetime_sub (now_at e message) (msg_date message);
          header = header_text matching_keywords (time_ago time_diff)
      in if \<not> send_message_ok e message then st
         else
           (let st1 = st\<lparr>sent := sent st @ [Send_message header]\<rparr>
            in if \<not> forward_messages_ok e message then st1
               else
                 (let st2 = st1\<lparr>sent := sent st1 @ [Forward_messages (msg_id message)]\<rparr>;
                      added = add_forwarded_message (forwarded_message_ids st2)
                                (msg_id message) (store_file st2)
                  in st2\<lparr>forwarded_message_ids := fst added, store_file := snd added\<rparr>)))"

text \<open>
  The body of the loop for a message within range, lines 118 to 188. A message whose
  text is \<open>None\<close> or empty is falsy at line 118 and nothing happens. The dict appended to
  \<open>messages\<close> is the one that later receives \<open>matching_keywords\<close> and is appended to
  \<open>matching_messages\<close>, so the last entry of \<open>messages\<close> changes with it.
\<close>

definition handle_message :: "env \<Rightarrow> string list \<Rightarrow> poll_state \<Rightarrow> message \<Rightarrow> poll_state" where
  "handle_message e KEYWORDS st message =
     (case msg_text message of
        None \<Rightarrow> st
      | Some txt \<Rightarrow>
          if txt = [] then st
          else
            (let message_data =
                   \<lparr>md_id = msg_id message, md_text = txt, md_matching_keywords = None\<rparr>;
                 st1 = st\<lparr>messages := messages st @ [message_data]\<rparr>;
                 matching_keywords = matching_keywords_of (str_lower e) KEYWORDS txt
             in if matching_keywords = [] then st1
                else if set_contains (forwarded_message_ids st1) (PInt (msg_id message))
                then st1\<lparr>skipped_messages := skipped_messages st1 + 1\<rparr>
                else
                  (let message_data' =
                         message_data\<lparr>md_matching_keywords := Some matching_keywords\<rparr>;
                       st2 = st1\<lparr>messages := messages st @ [message_data'],
                                 matching_messages := matching_messages st1 @ [message_data']\<rparr>
                   in forward_match e matching_keywords st2 message)))"

text \<open>
  The loop of lines 113 to 116 over the messages the client delivers:
  \<^verbatim>\<open>
  async for message in client.iter_messages(chat):
      if message.date < cutoff_time:
          break
  \<close>
\<close>

fun iter_messages_loop ::
  "env \<Rightarrow> int \<Rightarrow> string list \<Rightarrow> poll_state \<Rightarrow> message list \<Rightarrow> poll_state" where
  "iter_messages_loop e cutoff_time KEYWORDS st [] = st"
| "iter_messages_loop e cutoff_time KEYWORDS st (message # rest) =
     (if msg_date message < cutoff_time then st
      else iter_messages_loop e cutoff_time KEYWORDS (handle_message e KEYWORDS st message) rest)"

text \<open>
  \<open>get_chat_messages_by_time\<close>: the cutoff, the store loaded before the \<open>try\<close> (so an
  exception of \<open>load_forwarded_messages\<close> reaches the caller), the three early returns,
  and the loop. The result is the state at the end of the cycle.
\<close>

definition get_chat_messages_by_time ::
  "env \<Rightarrow> string list \<Rightarrow> int \<Rightarrow> file_state \<Rightarrow> py_error + poll_state" where
  "get_chat_messages_by_time e KEYWORDS hours_back fs =
     (let cutoff_time = now_start e - timedelta_hours hours_back
      in case load_forwarded_messages fs of
           Inl err \<Rightarrow> Inl err
         | Inr loaded_ids \<Rightarrow>
             (let st = initial_state loaded_ids fs
              in if \<not> is_user_authorized e then Inr st
                 else
                   (case chat_history e of
                      None \<Rightarrow> Inr st
                    | Some history \<Rightarrow>
                        if \<not> target_user_found e then Inr st
                        else Inr (iter_messages_loop e cutoff_time KEYWORDS st history))))"

section \<open>A sample cycle\<close>

text \<open>
  Five messages of a chat, newest first, and the surroundings of a cycle that starts two
  hours after the epoch and looks one hour back: the cutoff is \<open>3600000000\<close>. The third
  message cannot be forwarded, the fourth is dated exactly at the cutoff, the fifth one
  microsecond before it.
\<close>

definition msg_bike :: message where
  "msg_bike = \<lparr>msg_id = 12, msg_date = 7140000000, msg_text = Some ''Selling BIKE''\<rparr>"

definition msg_photo :: message where
  "msg_photo = \<lparr>msg_id = 11, msg_date = 7000000000, msg_text = None\<rparr>"

definition msg_laptop :: message where
  "msg_laptop = \<lparr>msg_id = 10, msg_date = 6000000000, msg_text = Some ''a laptop and bike''\<rparr>"

definition msg_boundary :: message where
  "msg_boundary = \<lparr>msg_id = 9, msg_date = 3600000000, msg_text = Some ''old bike''\<rparr>"

definition msg_old :: message where
  "msg_old = \<lparr>msg_id = 8, msg_date = 3599999999, msg_text = Some ''older bike''\<rparr>"

definition sample_env :: env where
  "sample_env =
     \<lparr>str_lower = ascii_lower,
      now_start = 7200000000,
      now_at = (\<lambda>m. 7205000000),
      is_user_authorized = True,
      chat_history = Some [msg_bike, msg_photo, msg_laptop, msg_boundary, msg_old],
      target_user_found = True,
      send_message_ok = (\<lambda>m. True),
      forward_messages_ok = (\<lambda>m. msg_id m \<noteq> 10)\<rparr>"

section \<open>Properties of the matcher\<close>

lemma starts_with_prefix: "starts_with n h = prefix n h"
  by (induction n h rule: starts_with.induct) simp_all

lemma str_contains_sublist: "str_contains h n = sublist n h"
proof (induction h)
  case Nil
  show ?case by simp
next
  case (Cons c cs)
  then show ?case
    by (simp add: starts_with_prefix sublist_Cons_right)
qed

lemma keywords_loop_filter:
  "keywords_loop lower t ks acc = acc @ filter (\<lambda>k. sublist (lower k) t) ks"
  by (induction ks arbitrary: acc) (simp_all add: str_contains_sublist)

lemma matching_keywords_of_filter:
  "matching_keywords_of lower K T = filter (\<lambda>k. sublist (lower k) (lower T)) K"
  by (simp add: matching_keywords_of_def keywords_loop_filter)

text \<open>
  Claim C2. For every keyword list \<open>K\<close> and message text \<open>T\<close>, the set of the keywords
  the matcher returns is the set of the keywords of \<open>K\<close> whose lowercase form is a
  substring of the lowercase text: plain substring containment, whatever \<open>lower\<close> is.
\<close>

theorem matcher_is_substring_filter:
  "set (matching_keywords_of lower K T) = matchedKeywords_spec lower T K"
  by (auto simp: matching_keywords_of_filter matchedKeywords_spec_def)

theorem matcher_is_substring_filter_witness:
  "matchedKeywords_spec ascii_lower ''Selling a used Laptop, great condition''
     [''laptop'', ''bike''] = {''laptop''}"
proof -
  have "matching_keywords_of ascii_lower [''laptop'', ''bike'']
          ''Selling a used Laptop, great condition'' = [''laptop'']"
    by code_simp
  with matcher_is_substring_filter
         [of ascii_lower "[''laptop'', ''bike'']" "''Selling a used Laptop, great condition''"]
  show ?thesis by simp
qed

section \<open>Properties of Python sets\<close>

lemma py_eq_PInt [simp]: "py_eq (PInt i) (PInt j) = (i = j)"
  by (auto simp: py_eq_def)

lemma py_eq_refl [simp]: "py_eq v v"
  by (cases v) (simp_all add: py_eq_def)

lemma py_eq_sym: "py_eq a b = py_eq b a"
  by (cases "py_int_value a"; cases "py_int_value b") (auto simp: py_eq_def)

lemma set_contains_Nil [simp]: "set_contains [] v = False"
  by (simp add: set_contains_def)

lemma set_contains_Cons: "set_contains (u # s) v = (py_eq u v \<or> set_contains s v)"
  by (simp add: set_contains_def)

lemma set_contains_append: "set_contains (s @ t) v = (set_contains s v \<or> set_contains t v)"
  by (auto simp: set_contains_def list_ex_iff)

lemma set_contains_iff: "set_contains s v = (\<exists>u\<in>set s. py_eq u v)"
  by (simp add: set_contains_def list_ex_iff)

lemma set_contains_self: "v \<in> set s \<Longrightarrow> set_contains s v"
  unfolding set_contains_iff using py_eq_refl by blast

lemma set_contains_PInt_map [simp]: "set_contains (map PInt xs) (PInt i) = (i \<in> set xs)"
  by (induction xs) (auto simp: set_contains_Cons)

lemma set_contains_add: "set_contains (set_add s v) v"
  by (simp add: set_add_def set_contains_append set_contains_self)

lemma set_contains_add_mono: "set_contains s w \<Longrightarrow> set_contains (set_add s v) w"
  by (simp add: set_add_def set_contains_append)

lemma set_add_idem: "set_add (set_add s v) v = set_add s v"
  using set_contains_add [of s v] by (simp add: set_add_def)

lemma is_pyset_append:
  "is_pyset (a @ b) =
     (is_pyset a \<and> is_pyset b \<and> (\<forall>u\<in>set a. \<forall>w\<in>set b. \<not> py_eq w u))"
  by (induction a) (auto simp: set_contains_iff)

lemma is_pyset_add: "is_pyset s \<Longrightarrow> hashable v \<Longrightarrow> is_pyset (set_add s v)"
  by (auto simp: set_add_def is_pyset_append set_contains_iff py_eq_sym)

lemma is_pyset_hashable: "is_pyset s \<Longrightarrow> list_all hashable s"
  by (induction s) simp_all

lemma fold_add_pyset:
  "is_pyset (acc @ xs) \<Longrightarrow> fold (\<lambda>x s. set_add s x) xs acc = acc @ xs"
proof (induction xs arbitrary: acc)
  case Nil
  show ?case by simp
next
  case (Cons x xs)
  from Cons.prems have "\<not> set_contains acc x"
    by (auto simp: is_pyset_append set_contains_iff py_eq_sym)
  then have "set_add acc x = acc @ [x]"
    by (simp add: set_add_def)
  moreover from Cons.prems have "is_pyset ((acc @ [x]) @ xs)"
    by simp
  ultimately show ?case
    using Cons.IH [of "acc @ [x]"] by simp
qed

lemma set_of_list_pyset: "is_pyset s \<Longrightarrow> set_of_list s = Inr s"
  by (simp add: set_of_list_def is_pyset_hashable fold_add_pyset [of "[]", simplified])

lemma is_pyset_ints: "is_pyset (map PInt xs) = distinct xs"
  by (induction xs) simp_all

lemma hashable_ints: "list_all hashable (map PInt xs)"
  by (induction xs) simp_all

lemma fold_add_ints:
  "\<exists>ys. fold (\<lambda>x s. set_add s x) (map PInt xs) (map PInt acc) = map PInt ys
        \<and> set ys = set acc \<union> set xs"
proof (induction xs arbitrary: acc)
  case Nil
  show ?case by auto
next
  case (Cons x xs)
  show ?case
  proof (cases "x \<in> set acc")
    case True
    then have "set_add (map PInt acc) (PInt x) = map PInt acc"
      by (simp add: set_add_def)
    with Cons [of acc] True show ?thesis by auto
  next
    case False
    then have "set_add (map PInt acc) (PInt x) = map PInt (acc @ [x])"
      by (simp add: set_add_def)
    with Cons [of "acc @ [x]"] show ?thesis by auto
  qed
qed

lemma py_set_ints:
  "\<exists>ys. py_set (PList (map PInt xs)) = Inr (map PInt ys) \<and> set ys = set xs"
  using fold_add_ints [of xs "[]"] by (simp add: set_of_list_def hashable_ints)

section \<open>Properties of the Duplicate Store\<close>

lemma py_set_error: "py_set v = Inl e \<Longrightarrow> e = TypeError"
  by (cases v) (simp_all add: set_of_list_def split: if_splits)

lemma load_cases:
  "load_forwarded_messages fs =
     (case fs of None \<Rightarrow> Inr [] | Some Not_json \<Rightarrow> Inr [] | Some (Json v) \<Rightarrow> py_set v)"
proof (cases fs)
  case None
  then show ?thesis by (simp add: load_forwarded_messages_def os_path_exists_def)
next
  case (Some c)
  show ?thesis
  proof (cases c)
    case Not_json
    with Some show ?thesis
      by (simp add: load_forwarded_messages_def os_path_exists_def load_try_def open_read_def)
  next
    case (Json v)
    with Some show ?thesis
      by (auto simp: load_forwarded_messages_def os_path_exists_def load_try_def open_read_def
               split: sum.splits dest: py_set_error)
  qed
qed

lemma load_saved_pyset:
  "is_pyset s \<Longrightarrow> load_forwarded_messages (save_forwarded_messages s fs) = Inr s"
  by (simp add: load_cases save_forwarded_messages_def set_of_list_pyset)

text \<open>
  Claim C3, as the specification states it: for every state of the file,
  \<open>load_forwarded_messages\<close> returns a set and raises nothing. It fails on a file that
  holds the JSON number \<open>5\<close>: \<open>json.load\<close> returns the int, \<open>set(5)\<close> raises \<open>TypeError\<close>,
  and the handler catches \<open>JSONDecodeError\<close> and \<open>FileNotFoundError\<close> only.
\<close>

theorem load_raises_on_json_number:
  "load_forwarded_messages (Some (Json (PInt 5))) = Inl TypeError"
  by (simp add: load_forwarded_messages_def os_path_exists_def load_try_def open_read_def)

text \<open>
  Claim C3, amended. \<open>load_forwarded_messages\<close> returns the empty set when the file is
  absent and when \<open>json.load\<close> rejects its content; on a content that decodes to a value
  \<open>v\<close> it does what \<open>set(v)\<close> does. So it returns the stored set of integers when the file
  holds a JSON array of integers, and \<open>TypeError\<close> reaches the caller when the file holds
  \<open>null\<close>, \<open>true\<close>, \<open>false\<close> or a number, or an array with an array or an object in it.
\<close>

theorem load_fails_soft_on_absent_and_undecodable:
  "load_forwarded_messages None = Inr []
   \<and> load_forwarded_messages (Some Not_json) = Inr []
   \<and> load_forwarded_messages (Some (Json v)) = py_set v
   \<and> (\<exists>ys. load_forwarded_messages (Some (Json (PList (map PInt xs)))) = Inr (map PInt ys)
            \<and> set ys = set xs)
   \<and> load_forwarded_messages (Some (Json PNone)) = Inl TypeError
   \<and> load_forwarded_messages (Some (Json (PBool b))) = Inl TypeError
   \<and> load_forwarded_messages (Some (Json (PInt n))) = Inl TypeError
   \<and> (\<not> list_all hashable vs \<longrightarrow>
         load_forwarded_messages (Some (Json (PList vs))) = Inl TypeError)"
  using py_set_ints [of xs] by (simp add: load_cases set_of_list_def)

theorem load_fails_soft_on_absent_and_undecodable_witness:
  "\<not> list_all hashable [PInt 1, PList [PInt 2]]
   \<and> load_forwarded_messages (Some (Json (PList [PInt 1, PList [PInt 2]]))) = Inl TypeError
   \<and> load_forwarded_messages (Some (Json (PList [PInt 7, PInt 3, PInt 7]))) = Inr [PInt 7, PInt 3]"
proof -
  have a: "\<not> list_all hashable [PInt 1, PList [PInt 2]]"
    by simp
  have b: "py_set (PList [PInt 7, PInt 3, PInt 7]) = Inr [PInt 7, PInt 3]"
    by code_simp
  from load_fails_soft_on_absent_and_undecodable
         [of "PList [PInt 7, PInt 3, PInt 7]" "[]" True 0 "[PInt 1, PList [PInt 2]]"] a b
  show ?thesis by simp
qed

text \<open>
  Claim C4. For every set of integers, given by the list \<open>xs\<close> of its elements, loading
  the file that \<open>save_forwarded_messages\<close> wrote returns a set with exactly the elements
  of \<open>xs\<close>; when \<open>xs\<close> lists every element once, as the elements of a Python set do, the
  loaded set is the saved one. The empty set is the case \<open>xs = []\<close>.
\<close>

theorem save_then_load_roundtrip:
  "(\<exists>ys. load_forwarded_messages (save_forwarded_messages (map PInt xs) fs) = Inr (map PInt ys)
         \<and> set ys = set xs)
   \<and> (distinct xs \<longrightarrow>
        load_forwarded_messages (save_forwarded_messages (map PInt xs) fs) = Inr (map PInt xs))
   \<and> load_forwarded_messages (save_forwarded_messages [] fs) = Inr []"
proof -
  have "\<exists>ys. load_forwarded_messages (save_forwarded_messages (map PInt xs) fs) = Inr (map PInt ys)
         \<and> set ys = set xs"
    using py_set_ints [of xs] by (simp add: load_cases save_forwarded_messages_def)
  moreover have "distinct xs \<longrightarrow>
        load_forwarded_messages (save_forwarded_messages (map PInt xs) fs) = Inr (map PInt xs)"
    by (simp add: load_saved_pyset is_pyset_ints)
  moreover have "load_forwarded_messages (save_forwarded_messages [] fs) = Inr []"
    by (simp add: load_saved_pyset)
  ultimately show ?thesis by blast
qed

theorem save_then_load_roundtrip_witness:
  "distinct [101, 7, 42 :: int]
   \<and> load_forwarded_messages (save_forwarded_messages (map PInt [101, 7, 42]) None)
       = Inr (map PInt [101, 7, 42])
   \<and> load_forwarded_messages (save_forwarded_messages [] (Some Not_json)) = Inr []"
  using save_then_load_roundtrip [of "[101, 7, 42]" None]
        save_then_load_roundtrip [of "[]" "Some Not_json"]
  by simp

text \<open>
  Claim C5. For every store (the set in memory and the file) and every identifier,
  adding the identifier a second time leaves the set in memory and the file as the
  first addition left them; the file holds the set in memory, loading it returns that
  set, and the set has no duplicate entry.
\<close>

theorem add_twice_is_add_once:
  "add_forwarded_message (fst (add_forwarded_message s i fs)) i
       (snd (add_forwarded_message s i fs)) = add_forwarded_message s i fs
   \<and> snd (add_forwarded_message s i fs) = Some (Json (PList (fst (add_forwarded_message s i fs))))
   \<and> set_contains (fst (add_forwarded_message s i fs)) (PInt i)
   \<and> (is_pyset s \<longrightarrow>
        is_pyset (fst (add_forwarded_message s i fs))
        \<and> load_forwarded_messages (snd (add_forwarded_message s i fs))
            = Inr (fst (add_forwarded_message s i fs)))"
proof -
  have "is_pyset s \<longrightarrow> is_pyset (set_add s (PInt i))"
    by (simp add: is_pyset_add)
  then show ?thesis
    using load_saved_pyset [of "set_add s (PInt i)" fs]
    by (simp add: add_forwarded_message_def Let_def set_add_idem set_contains_add
                  save_forwarded_messages_def)
qed

theorem add_twice_is_add_once_witness:
  "is_pyset [PInt 5, PInt 9]
   \<and> add_forwarded_message [PInt 5, PInt 9] 12 None
       = ([PInt 5, PInt 9, PInt 12], Some (Json (PList [PInt 5, PInt 9, PInt 12])))
   \<and> add_forwarded_message [PInt 5, PInt 9, PInt 12] 12
         (Some (Json (PList [PInt 5, PInt 9, PInt 12])))
       = ([PInt 5, PInt 9, PInt 12], Some (Json (PList [PInt 5, PInt 9, PInt 12])))
   \<and> load_forwarded_messages (Some (Json (PList [PInt 5, PInt 9, PInt 12])))
       = Inr [PInt 5, PInt 9, PInt 12]"
proof -
  have a: "is_pyset [PInt 5, PInt 9]"
    by code_simp
  have b: "add_forwarded_message [PInt 5, PInt 9] 12 None
             = ([PInt 5, PInt 9, PInt 12], Some (Json (PList [PInt 5, PInt 9, PInt 12])))"
    by code_simp
  from add_twice_is_add_once [of "[PInt 5, PInt 9]" 12 None] a b
  show ?thesis by simp
qed

section \<open>Properties of the relative age\<close>

lemma hours_of_seconds: "(d::int) div 1000000 div 3600 = d div 3600000000"
  using zdiv_zmult2_eq [of 3600 d 1000000] by simp

lemma minutes_of_seconds: "(d::int) div 1000000 div 60 = d div 60000000"
  using zdiv_zmult2_eq [of 60 d 1000000] by simp

lemma seconds_ge_hour: "(3600 \<le> (d::int) div 1000000) = (3600000000 \<le> d)"
  by linarith

lemma seconds_ge_minute: "(60 \<le> (d::int) div 1000000) = (60000000 \<le> d)"
  by linarith

lemma time_ago_day:
  assumes "86400000000 \<le> d"
  shows "time_ago (datetime_sub (b + d) b) = units_ago (d div 86400000000) ''day''"
proof -
  from assms have "0 < d div 86400000000"
    by (simp add: pos_imp_zdiv_pos_iff)
  then show ?thesis
    by (auto simp: time_ago_def datetime_sub_def units_ago_def Let_def)
qed

lemma time_ago_below_day:
  assumes "0 \<le> d" "d < 86400000000"
  shows "time_ago (datetime_sub (b + d) b) =
     (if d \<ge> 3600000000 then units_ago (d div 3600000000) ''hour''
      else if d \<ge> 60000000 then units_ago (d div 60000000) ''minute''
      else ''just now'')"
proof -
  from assms have d0: "d div 86400000000 = 0" and dm: "d mod 86400000000 = d"
    by simp_all
  have h1: "3600000000 \<le> d \<Longrightarrow> 1 \<le> d div 3600000000"
    by linarith
  have m1: "60000000 \<le> d \<Longrightarrow> 1 \<le> d div 60000000"
    by linarith
  show ?thesis
    using h1 m1
    by (auto simp: time_ago_def datetime_sub_def units_ago_def Let_def d0 dm
                   hours_of_seconds minutes_of_seconds seconds_ge_hour seconds_ge_minute)
qed

text \<open>
  Claim C9. For a message dated \<open>b\<close> and a clock \<open>a\<close> not before it, the relative age the
  code computes from the normalised \<open>timedelta\<close> is the one the specification describes
  on the difference \<open>a - b\<close>: days from one day on, else hours from one hour on, else
  minutes from one minute on, else \<open>just now\<close>, the unit in the singular exactly when the
  number is 1.
\<close>

theorem relative_age_follows_thresholds:
  "b \<le> a \<Longrightarrow> time_ago (datetime_sub a b) = relative_age_spec (a - b)"
proof -
  assume "b \<le> a"
  then have d: "0 \<le> a - b" by simp
  show ?thesis
  proof (cases "86400000000 \<le> a - b")
    case True
    with time_ago_day [of "a - b" b] show ?thesis
      by (simp add: relative_age_spec_def)
  next
    case False
    with d time_ago_below_day [of "a - b" b] show ?thesis
      by (simp add: relative_age_spec_def)
  qed
qed

theorem relative_age_follows_thresholds_witness:
  "(0::int) \<le> 90000000000
   \<and> time_ago (datetime_sub 90000000000 0) = ''1 day ago''
   \<and> time_ago (datetime_sub 7205000000 0) = ''2 hours ago''
   \<and> time_ago (datetime_sub 7205000000 7140000000) = ''1 minute ago''
   \<and> time_ago (datetime_sub 7205000000 7204000000) = ''just now''"
proof -
  have "relative_age_spec (90000000000 - 0) = ''1 day ago''"
    and "relative_age_spec (7205000000 - 0) = ''2 hours ago''"
    and "relative_age_spec (7205000000 - 7140000000) = ''1 minute ago''"
    and "relative_age_spec (7205000000 - 7204000000) = ''just now''"
    by code_simp+
  with relative_age_follows_thresholds [of 0 90000000000]
       relative_age_follows_thresholds [of 0 7205000000]
       relative_age_follows_thresholds [of 7140000000 7205000000]
       relative_age_follows_thresholds [of 7204000000 7205000000]
  show ?thesis by simp
qed

section \<open>Properties of the Chat Poller\<close>

lemma handle_message_no_text:
  "msg_text m = None \<or> msg_text m = Some [] \<Longrightarrow> handle_message e K st m = st"
  by (auto simp: handle_message_def)

lemma forward_match_ids_mono:
  "set_contains (forwarded_message_ids st) v \<Longrightarrow>
   set_contains (forwarded_message_ids (forward_match e mk st m)) v"
  by (simp add: forward_match_def Let_def add_forwarded_message_def set_contains_add_mono)

lemma forward_match_counts:
  "messages (forward_match e mk st m) = messages st
   \<and> matching_messages (forward_match e mk st m) = matching_messages st
   \<and> skipped_messages (forward_match e mk st m) = skipped_messages st"
  by (simp add: forward_match_def Let_def)

lemma forward_match_sent_on_failure:
  "\<not> send_message_ok e m \<or> \<not> forward_messages_ok e m \<Longrightarrow>
   sent (forward_match e mk st m) =
     (if send_message_ok e m
      then sent st @ [Send_message
             (header_text mk (time_ago (datetime_sub (now_at e m) (msg_date m))))]
      else sent st)"
  by (auto simp: forward_match_def Let_def)

lemma handle_message_ids_mono:
  "set_contains (forwarded_message_ids st) v \<Longrightarrow>
   set_contains (forwarded_message_ids (handle_message e K st m)) v"
  by (auto simp: handle_message_def Let_def forward_match_ids_mono split: option.splits)

lemma loop_ids_mono:
  "set_contains (forwarded_message_ids st) v \<Longrightarrow>
   set_contains (forwarded_message_ids (iter_messages_loop e c K st ms)) v"
  by (induction ms arbitrary: st) (simp_all add: handle_message_ids_mono)

lemma loop_append:
  "\<forall>x\<in>set pre. \<not> msg_date x < c \<Longrightarrow>
   iter_messages_loop e c K st (pre @ ms) =
     iter_messages_loop e c K (iter_messages_loop e c K st pre) ms"
  by (induction pre arbitrary: st) simp_all

lemma loop_takeWhile:
  "iter_messages_loop e c K st ms =
     foldl (handle_message e K) st (takeWhile (\<lambda>m. \<not> msg_date m < c) ms)"
  by (induction ms arbitrary: st) simp_all

lemma handle_message_known:
  assumes "msg_text m = Some txt" "txt \<noteq> []"
    and "matching_keywords_of (str_lower e) K txt \<noteq> []"
    and "set_contains (forwarded_message_ids st) (PInt (msg_id m))"
  shows "handle_message e K st m =
     st\<lparr>messages := messages st
           @ [\<lparr>md_id = msg_id m, md_text = txt, md_matching_keywords = None\<rparr>],
        skipped_messages := skipped_messages st + 1\<rparr>"
  using assms by (simp add: handle_message_def Let_def)

lemma handle_message_failure:
  "\<not> send_message_ok e m \<or> \<not> forward_messages_ok e m \<Longrightarrow>
   forwarded_message_ids (handle_message e K st m) = forwarded_message_ids st
   \<and> store_file (handle_message e K st m) = store_file st"
  by (auto simp: handle_message_def Let_def forward_match_def split: option.splits)

lemma handle_message_new_match:
  assumes "msg_text m = Some txt" "txt \<noteq> []"
    and "matching_keywords_of (str_lower e) K txt \<noteq> []"
    and "\<not> set_contains (forwarded_message_ids st) (PInt (msg_id m))"
    and "\<not> send_message_ok e m \<or> \<not> forward_messages_ok e m"
  shows "sent (handle_message e K st m) =
     (if send_message_ok e m
      then sent st @ [Send_message
             (header_text (matching_keywords_of (str_lower e) K txt)
                (time_ago (datetime_sub (now_at e m) (msg_date m))))]
      else sent st)"
  using assms by (simp add: handle_message_def Let_def forward_match_sent_on_failure)

lemma empty_keyword_matches:
  assumes "[] \<in> set K" and "lower [] = []"
  shows "[] \<in> set (matching_keywords_of lower K T)"
  using assms by (simp add: matching_keywords_of_filter)

lemma handle_message_match_count:
  assumes "msg_text m = Some txt" "txt \<noteq> []"
    and "matching_keywords_of (str_lower e) K txt \<noteq> []"
  shows "length (matching_messages (handle_message e K st m))
           + skipped_messages (handle_message e K st m)
         = length (matching_messages st) + skipped_messages st + 1"
  using assms by (simp add: handle_message_def Let_def forward_match_counts)

lemma never_forwarded_step:
  "set_contains (forwarded_message_ids st) (PInt i) \<Longrightarrow>
   Forward_messages i \<notin> set (sent st) \<Longrightarrow>
   Forward_messages i \<notin> set (sent (handle_message e K st m))"
  by (auto simp: handle_message_def Let_def forward_match_def split: option.splits)

text \<open>
  Over a whole cycle: an identifier the store holds when the loop starts is in no
  forward of the cycle.
\<close>

lemma stored_identifier_never_forwarded:
  "set_contains (forwarded_message_ids st) (PInt i) \<Longrightarrow>
   Forward_messages i \<notin> set (sent st) \<Longrightarrow>
   Forward_messages i \<notin> set (sent (iter_messages_loop e c K st ms))"
  by (induction ms arbitrary: st) (simp_all add: handle_message_ids_mono never_forwarded_step)

text \<open>
  Claim C1. In a cycle that starts the loop in state \<open>st\<close>, let the messages \<open>pre\<close> and
  then \<open>m\<close> be within range, \<open>m\<close> with a text whose keyword match is not empty. If the
  identifier of \<open>m\<close> is in the store of \<open>st\<close> (the one loaded at the start of the cycle)
  or in the store when \<open>m\<close> is reached (so added while \<open>pre\<close> was handled), then handling
  \<open>m\<close> sends nothing, leaves the store and the new matches as they are and counts one
  more skipped message, and the loop goes on with the rest.
\<close>

theorem stored_identifier_is_skipped:
  assumes "\<forall>x\<in>set pre. \<not> msg_date x < c" and "\<not> msg_date m < c"
    and "msg_text m = Some txt" and "txt \<noteq> []"
    and "matching_keywords_of (str_lower e) K txt \<noteq> []"
    and "set_contains (forwarded_message_ids st) (PInt (msg_id m))
         \<or> set_contains (forwarded_message_ids (iter_messages_loop e c K st pre))
              (PInt (msg_id m))"
  shows "sent (handle_message e K (iter_messages_loop e c K st pre) m)
           = sent (iter_messages_loop e c K st pre)
     \<and> forwarded_message_ids (handle_message e K (iter_messages_loop e c K st pre) m)
           = forwarded_message_ids (iter_messages_loop e c K st pre)
     \<and> store_file (handle_message e K (iter_messages_loop e c K st pre) m)
           = store_file (iter_messages_loop e c K st pre)
     \<and> matching_messages (handle_message e K (iter_messages_loop e c K st pre) m)
           = matching_messages (iter_messages_loop e c K st pre)
     \<and> skipped_messages (handle_message e K (iter_messages_loop e c K st pre) m)
           = skipped_messages (iter_messages_loop e c K st pre) + 1
     \<and> iter_messages_loop e c K st (pre @ m # rest)
           = iter_messages_loop e c K
               (handle_message e K (iter_messages_loop e c K st pre) m) rest"
proof -
  let ?st1 = "iter_messages_loop e c K st pre"
  from assms(6) have "set_contains (forwarded_message_ids ?st1) (PInt (msg_id m))"
    using loop_ids_mono [of st "PInt (msg_id m)" e c K pre] by blast
  with assms(3-5) have "handle_message e K ?st1 m =
     ?st1\<lparr>messages := messages ?st1
           @ [\<lparr>md_id = msg_id m, md_text = txt, md_matching_keywords = None\<rparr>],
        skipped_messages := skipped_messages ?st1 + 1\<rparr>"
    by (rule handle_message_known)
  moreover have "iter_messages_loop e c K st (pre @ m # rest)
           = iter_messages_loop e c K (handle_message e K ?st1 m) rest"
    using assms(1,2) by (simp add: loop_append)
  ultimately show ?thesis by simp
qed

theorem stored_identifier_is_skipped_witness:
  "sent (iter_messages_loop sample_env 3600000000 [''laptop'', ''bike'']
           (initial_state [PInt 9] None) [msg_bike, msg_boundary])
     = [Send_message (header_text [''bike''] ''1 minute ago''), Forward_messages 12]
   \<and> skipped_messages (iter_messages_loop sample_env 3600000000 [''laptop'', ''bike'']
           (initial_state [PInt 9] None) [msg_bike, msg_boundary]) = 1"
proof -
  let ?K = "[''laptop'', ''bike'']"
  let ?st = "initial_state [PInt 9] None"
  have h1: "\<forall>x\<in>set [msg_bike]. \<not> msg_date x < 3600000000"
    by code_simp
  have h2: "\<not> msg_date msg_boundary < 3600000000"
    by code_simp
  have h3: "msg_text msg_boundary = Some ''old bike''"
    by code_simp
  have h4: "''old bike'' \<noteq> []"
    by simp
  have h5: "matching_keywords_of (str_lower sample_env) ?K ''old bike'' \<noteq> []"
    by code_simp
  have h6: "set_contains (forwarded_message_ids ?st) (PInt (msg_id msg_boundary))"
    by code_simp
  have before: "sent (iter_messages_loop sample_env 3600000000 ?K ?st [msg_bike])
     = [Send_message (header_text [''bike''] ''1 minute ago''), Forward_messages 12]"
    by code_simp
  have skipped: "skipped_messages (iter_messages_loop sample_env 3600000000 ?K ?st [msg_bike]) = 0"
    by code_simp
  from stored_identifier_is_skipped [OF h1 h2 h3 h4 h5 disjI1 [OF h6], of "[]"] before skipped
  show ?thesis by simp
qed

lemma cycle_runs_loop:
  assumes "load_forwarded_messages fs = Inr ids" and "is_user_authorized e"
    and "chat_history e = Some history" and "target_user_found e"
  shows "get_chat_messages_by_time e K hours_back fs =
     Inr (iter_messages_loop e (now_start e - timedelta_hours hours_back) K
            (initial_state ids fs) history)"
  using assms by (simp add: get_chat_messages_by_time_def Let_def)

text \<open>
  Over a whole cycle that reaches the loop: an identifier in the store loaded at the
  start is in no forward of the cycle.
\<close>

lemma cycle_never_forwards_stored_identifier:
  assumes "load_forwarded_messages fs = Inr ids" and "set_contains ids (PInt i)"
    and "get_chat_messages_by_time e K hours_back fs = Inr st"
  shows "Forward_messages i \<notin> set (sent st)"
proof -
  have start: "set_contains (forwarded_message_ids (initial_state ids fs)) (PInt i)
     \<and> Forward_messages i \<notin> set (sent (initial_state ids fs))"
    using assms(2) by (simp add: initial_state_def)
  then have "Forward_messages i \<notin> set (sent (iter_messages_loop e c K (initial_state ids fs) ms))"
    for c ms
    by (simp add: stored_identifier_never_forwarded)
  with start assms(1,3) show ?thesis
    by (auto simp: get_chat_messages_by_time_def Let_def split: option.splits if_splits)
qed

text \<open>
  Claim C6. The loop handles the messages up to the first one dated strictly before the
  cutoff and none after it: its result is that of handling, in order, the longest
  prefix whose dates are not before the cutoff, whatever follows. A message dated
  exactly at the cutoff \<open>now - timedelta(hours=h)\<close> is handled. A cycle that reaches the
  loop runs it with the cutoff \<open>now_start - timedelta(hours=hours_back)\<close>.
\<close>

theorem loop_stops_at_first_older_message:
  "iter_messages_loop e c K st ms
     = foldl (handle_message e K) st (takeWhile (\<lambda>m. \<not> msg_date m < c) ms)
   \<and> (msg_date m = now - timedelta_hours h \<longrightarrow>
        iter_messages_loop e (now - timedelta_hours h) K st (m # rest)
          = iter_messages_loop e (now - timedelta_hours h) K (handle_message e K st m) rest)
   \<and> ((\<forall>x\<in>set pre. \<not> msg_date x < c) \<and> msg_date m < c \<longrightarrow>
        iter_messages_loop e c K st (pre @ m # rest) = foldl (handle_message e K) st pre)
   \<and> (load_forwarded_messages fs = Inr ids \<and> is_user_authorized e
        \<and> chat_history e = Some history \<and> target_user_found e \<longrightarrow>
        get_chat_messages_by_time e K hours_back fs
          = Inr (foldl (handle_message e K) (initial_state ids fs)
                  (takeWhile (\<lambda>m. \<not> msg_date m < now_start e - timedelta_hours hours_back)
                     history)))"
proof -
  have "(\<forall>x\<in>set pre. \<not> msg_date x < c) \<and> msg_date m < c \<longrightarrow>
        takeWhile (\<lambda>m. \<not> msg_date m < c) (pre @ m # rest) = pre"
    by (simp add: takeWhile_append2)
  then show ?thesis
    by (auto simp: loop_takeWhile cycle_runs_loop)
qed

theorem loop_stops_at_first_older_message_witness:
  "msg_date msg_boundary = now_start sample_env - timedelta_hours 1
   \<and> msg_date msg_old < 3600000000
   \<and> iter_messages_loop sample_env 3600000000 [''bike''] (initial_state [] None)
        [msg_boundary, msg_old, msg_bike]
     = handle_message sample_env [''bike''] (initial_state [] None) msg_boundary
   \<and> sent (iter_messages_loop sample_env 3600000000 [''bike''] (initial_state [] None)
        [msg_boundary, msg_old, msg_bike])
     = [Send_message (header_text [''bike''] ''1 hour ago''), Forward_messages 9]
   \<and> get_chat_messages_by_time sample_env [''bike''] 1 None
     = Inr (foldl (handle_message sample_env [''bike'']) (initial_state [] None)
              [msg_bike, msg_photo, msg_laptop, msg_boundary])"
proof -
  have h1: "msg_date msg_boundary = now_start sample_env - timedelta_hours 1"
    by code_simp
  have h2: "(\<forall>x\<in>set [msg_boundary]. \<not> msg_date x < 3600000000) \<and> msg_date msg_old < 3600000000"
    by code_simp
  have h3: "sent (handle_message sample_env [''bike''] (initial_state [] None) msg_boundary)
     = [Send_message (header_text [''bike''] ''1 hour ago''), Forward_messages 9]"
    by code_simp
  have h4: "load_forwarded_messages None = Inr [] \<and> is_user_authorized sample_env
     \<and> chat_history sample_env = Some [msg_bike, msg_photo, msg_laptop, msg_boundary, msg_old]
     \<and> target_user_found sample_env"
    by code_simp
  have h5: "takeWhile (\<lambda>m. \<not> msg_date m < now_start sample_env - timedelta_hours 1)
              [msg_bike, msg_photo, msg_laptop, msg_boundary, msg_old]
            = [msg_bike, msg_photo, msg_laptop, msg_boundary]"
    by code_simp
  from loop_stops_at_first_older_message
         [of sample_env 3600000000 "[''bike'']" "initial_state [] None"
             "[msg_boundary, msg_old, msg_bike]" msg_old "now_start sample_env" 1 "[msg_bike]"
             "[msg_boundary]" None "[]"
             "[msg_bike, msg_photo, msg_laptop, msg_boundary, msg_old]" 1]
       h1 h2 h3 h4 h5
  show ?thesis by simp
qed

text \<open>
  Claim C7. When the keyword list holds the empty string (and the empty string is its
  own lowercase form), the matcher returns a non-empty list for every text, the empty
  keyword being in it; so every message with a text is handled as a match: it is
  counted as skipped or as a new match.
\<close>

theorem empty_keyword_matches_every_text:
  assumes "[] \<in> set K" and "str_lower e [] = []"
  shows "matching_keywords_of (str_lower e) K T \<noteq> []
     \<and> [] \<in> set (matching_keywords_of (str_lower e) K T)
     \<and> (msg_text m = Some txt \<and> txt \<noteq> [] \<longrightarrow>
          length (matching_messages (handle_message e K st m))
            + skipped_messages (handle_message e K st m)
          = length (matching_messages st) + skipped_messages st + 1)"
proof -
  have in_match: "[] \<in> set (matching_keywords_of (str_lower e) K T')" for T'
    using assms by (rule empty_keyword_matches)
  then have "matching_keywords_of (str_lower e) K T' \<noteq> []" for T'
    by (metis empty_iff list.set(1))
  with in_match show ?thesis
    using handle_message_match_count [of m "txt" e K st] by blast
qed

theorem empty_keyword_matches_every_text_witness:
  "[] \<in> set ['''', ''bike'']
   \<and> matching_keywords_of (str_lower sample_env) ['''', ''bike''] ''a laptop'' = ['''']
   \<and> length (matching_messages
        (handle_message sample_env ['''', ''bike''] (initial_state [] None) msg_laptop)) = 1"
proof -
  have h1: "[] \<in> set ['''', ''bike'']"
    by simp
  have h2: "str_lower sample_env [] = []"
    by code_simp
  have h3: "msg_text msg_laptop = Some ''a laptop and bike'' \<and> ''a laptop and bike'' \<noteq> []"
    by code_simp
  have h4: "matching_keywords_of (str_lower sample_env) ['''', ''bike''] ''a laptop'' = ['''']"
    by code_simp
  have h5: "skipped_messages
      (handle_message sample_env ['''', ''bike''] (initial_state [] None) msg_laptop) = 0"
    by code_simp
  have h6: "matching_messages (initial_state [] None) = [] \<and> skipped_messages (initial_state [] None) = 0"
    by code_simp
  from empty_keyword_matches_every_text
         [OF h1 h2, of "''a laptop''" msg_laptop "''a laptop and bike''" "initial_state [] None"]
       h3 h4 h5 h6
  show ?thesis by simp
qed

text \<open>
  Claim C8. When sending the header or forwarding a message raises, handling that
  message leaves the set of identifiers and the file as they were, and the loop goes on
  with the next message. For a new match, nothing is sent when the header fails and the
  header alone when the forward fails.
\<close>

theorem failed_forward_leaves_store:
  assumes "\<not> send_message_ok e m \<or> \<not> forward_messages_ok e m"
  shows "forwarded_message_ids (handle_message e K st m) = forwarded_message_ids st
     \<and> store_file (handle_message e K st m) = store_file st
     \<and> (\<not> msg_date m < c \<longrightarrow>
          iter_messages_loop e c K st (m # rest)
            = iter_messages_loop e c K (handle_message e K st m) rest)
     \<and> (msg_text m = Some txt \<and> txt \<noteq> []
          \<and> matching_keywords_of (str_lower e) K txt \<noteq> []
          \<and> \<not> set_contains (forwarded_message_ids st) (PInt (msg_id m)) \<longrightarrow>
          sent (handle_message e K st m) =
            (if send_message_ok e m
             then sent st @ [Send_message
                    (header_text (matching_keywords_of (str_lower e) K txt)
                       (time_ago (datetime_sub (now_at e m) (msg_date m))))]
             else sent st))"
  using assms handle_message_failure [of e m K st] handle_message_new_match [of m "txt" e K st]
  by simp

theorem failed_forward_leaves_store_witness:
  "forwarded_message_ids
     (handle_message sample_env [''laptop'', ''bike''] (initial_state [PInt 9] None) msg_laptop)
     = [PInt 9]
   \<and> store_file
     (handle_message sample_env [''laptop'', ''bike''] (initial_state [PInt 9] None) msg_laptop)
     = None
   \<and> sent
     (handle_message sample_env [''laptop'', ''bike''] (initial_state [PInt 9] None) msg_laptop)
     = [Send_message (header_text [''laptop'', ''bike''] ''20 minutes ago'')]
   \<and> iter_messages_loop sample_env 3600000000 [''laptop'', ''bike'']
        (initial_state [PInt 9] None) [msg_laptop, msg_boundary]
     = iter_messages_loop sample_env 3600000000 [''laptop'', ''bike'']
        (handle_message sample_env [''laptop'', ''bike''] (initial_state [PInt 9] None) msg_laptop)
        [msg_boundary]"
proof -
  let ?K = "[''laptop'', ''bike'']"
  let ?st = "initial_state [PInt 9] None"
  have h1: "\<not> send_message_ok sample_env msg_laptop \<or> \<not> forward_messages_ok sample_env msg_laptop"
    by code_simp
  have h2: "\<not> msg_date msg_laptop < 3600000000"
    by code_simp
  have h3: "msg_text msg_laptop = Some ''a laptop and bike'' \<and> ''a laptop and bike'' \<noteq> []
     \<and> matching_keywords_of (str_lower sample_env) ?K ''a laptop and bike'' = ?K
     \<and> \<not> set_contains (forwarded_message_ids ?st) (PInt (msg_id msg_laptop))"
    by code_simp
  have h4: "send_message_ok sample_env msg_laptop \<and> sent ?st = []
     \<and> forwarded_message_ids ?st = [PInt 9] \<and> store_file ?st = None"
    by code_simp
  have h5: "time_ago (datetime_sub (now_at sample_env msg_laptop) (msg_date msg_laptop))
     = ''20 minutes ago''"
    by code_simp
  from failed_forward_leaves_store
         [OF h1, of ?K ?st 3600000000 "[msg_boundary]" "''a laptop and bike''"]
       h2 h3 h4 h5
  show ?thesis by simp
qed

text \<open>
  Claim C10. A message within range whose text is \<open>None\<close> or the empty string changes
  nothing: it is not appended to \<open>messages\<close>, the matcher is not run, nothing is sent or
  stored, and the loop goes on with the rest, whatever the keyword list holds, an empty
  keyword included.
\<close>

theorem message_without_text_is_ignored:
  assumes "msg_text m = None \<or> msg_text m = Some []"
  shows "handle_message e K st m = st
     \<and> (\<not> msg_date m < c \<longrightarrow>
          iter_messages_loop e c K st (m # rest) = iter_messages_loop e c K st rest)"
  using assms by (simp add: handle_message_no_text)

theorem message_without_text_is_ignored_witness:
  "msg_text msg_photo = None
   \<and> \<not> msg_date msg_photo < 3600000000
   \<and> handle_message sample_env ['''', ''bike''] (initial_state [] None) msg_photo
       = initial_state [] None
   \<and> iter_messages_loop sample_env 3600000000 ['''', ''bike''] (initial_state [] None)
        [msg_photo, msg_old]
       = initial_state [] None
   \<and> handle_message sample_env ['''', ''bike''] (initial_state [] None)
        (msg_photo\<lparr>msg_text := Some ''''\<rparr>)
       = initial_state [] None"
proof -
  have h1: "msg_text msg_photo = None"
    by code_simp
  have h2: "\<not> msg_date msg_photo < 3600000000"
    by code_simp
  have h3: "iter_messages_loop sample_env 3600000000 ['''', ''bike''] (initial_state [] None)
        [msg_old] = initial_state [] None"
    by code_simp
  have h4: "msg_text (msg_photo\<lparr>msg_text := Some ''''\<rparr>) = Some []"
    by simp
  from message_without_text_is_ignored
         [OF disjI1 [OF h1], of sample_env "['''', ''bike'']" "initial_state [] None"
             3600000000 "[msg_old]"]
       message_without_text_is_ignored
         [OF disjI2 [OF h4], of sample_env "['''', ''bike'']" "initial_state [] None"
             3600000000 "[]"]
       h1 h2 h3
  show ?thesis by simp
qed

end
